theory Spec2Isabelle
  imports
    Complex_Main
    "HOL-Library.Char_ord"
    "HOL-Library.List_Lexorder"
    "HOL-Library.Product_Lexorder"
begin

section \<open>Values, exceptions and the library functions the planner relies on\<close>

text \<open>
  The planner (\<^verbatim>\<open>inventory_planner_app.py\<close>) reads spreadsheet cells, whose values are
  dynamically typed. A cell value is \<^verbatim>\<open>None\<close> (an empty cell), a \<^verbatim>\<open>bool\<close>, an \<^verbatim>\<open>int\<close>,
  a \<^verbatim>\<open>float\<close>, a \<^verbatim>\<open>str\<close>, or an object of another type (a \<^verbatim>\<open>datetime\<close>, say), which
  is carried here with the text \<^verbatim>\<open>str()\<close> gives for it and on which \<^verbatim>\<open>float()\<close> raises
  \<^verbatim>\<open>TypeError\<close>.

  Floats are modelled as exact real numbers: rounding, overflow, infinities and NaN are
  outside the model. Strings are byte lists (UTF-8); \<^verbatim>\<open>strip\<close>, \<^verbatim>\<open>upper\<close> and \<^verbatim>\<open>lower\<close> are
  modelled on ASCII and leave every other byte as it is.
\<close>

datatype pyval = PNone | PBool bool | PInt int | PFloat real | PStr string | PObj string

datatype py_error = ValueError string | TypeError | IndexError string | StopIteration

text \<open>\<^verbatim>\<open>str(e)\<close> of an exception, as the user interface prints it after
  \<^verbatim>\<open>An error occurred:\<close>. \<^verbatim>\<open>StopIteration()\<close> carries no argument, so its text is empty.\<close>

fun error_message :: "py_error \<Rightarrow> string" where
  "error_message (ValueError m) = m"
| "error_message TypeError = ''float() argument must be a string or a real number''"
| "error_message (IndexError m) = m"
| "error_message StopIteration = ''''"

type_synonym date = nat

text \<open>
  Three functions of Python and pandas are parameters of the model: \<^verbatim>\<open>float(s)\<close> on a string
  (\<open>None\<close> where it raises \<^verbatim>\<open>ValueError\<close>), \<^verbatim>\<open>str(x)\<close> on a float, and
  \<^verbatim>\<open>pd.to_datetime(h).date()\<close> on a plan column label \<open>h\<close> that passed \<^verbatim>\<open>is_excel_date\<close>.
  A calendar date is its day number.
\<close>

record 'h pylib =
  float_of_str :: "string \<Rightarrow> real option"
  str_of_float :: "real \<Rightarrow> string"
  to_date :: "'h \<Rightarrow> date"

subsection \<open>String helpers\<close>

definition is_space :: "char \<Rightarrow> bool" where
  "is_space c = (c \<in> set [CHR 0x09, CHR 0x0A, CHR 0x0B, CHR 0x0C, CHR 0x0D,
                            CHR 0x1C, CHR 0x1D, CHR 0x1E, CHR 0x1F, CHR 0x20])"

definition py_strip :: "string \<Rightarrow> string" where
  "py_strip s = rev (dropWhile is_space (rev (dropWhile is_space s)))"

definition upper_char :: "char \<Rightarrow> char" where
  "upper_char c =
     (case map_of (zip ''abcdefghijklmnopqrstuvwxyz'' ''ABCDEFGHIJKLMNOPQRSTUVWXYZ'') c of
        Some u \<Rightarrow> u | None \<Rightarrow> c)"

definition lower_char :: "char \<Rightarrow> char" where
  "lower_char c =
     (case map_of (zip ''ABCDEFGHIJKLMNOPQRSTUVWXYZ'' ''abcdefghijklmnopqrstuvwxyz'') c of
        Some u \<Rightarrow> u | None \<Rightarrow> c)"

definition py_upper :: "string \<Rightarrow> string" where
  "py_upper s = map upper_char s"

definition py_lower :: "string \<Rightarrow> string" where
  "py_lower s = map lower_char s"

fun digits :: "nat \<Rightarrow> string" where
  "digits n =
     (if n < 10 then [''0123456789'' ! n]
      else digits (n div 10) @ [''0123456789'' ! (n mod 10)])"

declare digits.simps [simp del]

text \<open>\<^verbatim>\<open>str(x)\<close>.\<close>

fun py_str :: "('h, 'z) pylib_scheme \<Rightarrow> pyval \<Rightarrow> string" where
  "py_str L PNone = ''None''"
| "py_str L (PBool b) = (if b then ''True'' else ''False'')"
| "py_str L (PInt i) = (if i < 0 then CHR ''-'' # digits (nat (- i)) else digits (nat i))"
| "py_str L (PFloat r) = str_of_float L r"
| "py_str L (PStr s) = s"
| "py_str L (PObj s) = s"

text \<open>\<^verbatim>\<open>x.replace(",", ".")\<close>: every comma becomes a point.\<close>

definition comma_to_dot :: "string \<Rightarrow> string" where
  "comma_to_dot s = map (\<lambda>c. if c = CHR '','' then CHR ''.'' else c) s"

text \<open>\<^verbatim>\<open>float(x)\<close>, with its exceptions as values (their messages are shortened: they
  also quote the string, or name the type of the argument; \<^verbatim>\<open>safe_float\<close> discards them).\<close>

fun py_float :: "('h, 'z) pylib_scheme \<Rightarrow> pyval \<Rightarrow> py_error + real" where
  "py_float L PNone = Inl TypeError"
| "py_float L (PBool b) = Inr (if b then 1 else 0)"
| "py_float L (PInt i) = Inr (real_of_int i)"
| "py_float L (PFloat r) = Inr r"
| "py_float L (PStr s) =
     (case float_of_str L s of
        None \<Rightarrow> Inl (ValueError ''could not convert string to float'')
      | Some r \<Rightarrow> Inr r)"
| "py_float L (PObj s) = Inl TypeError"

subsection \<open>The helper functions of the source\<close>

text \<open>
  \<^verbatim>\<open>
  def safe_float(x) -> float:
      try:
          if isinstance(x, str):
              x = x.replace(",", ".")
          return float(x)
      except Exception:
          return 0.0
  \<close>
  The body of the \<^verbatim>\<open>try\<close> is \<open>safe_float_body\<close>, which may raise; the handler turns every
  exception into \<open>0.0\<close>.
\<close>

definition safe_float_body :: "('h, 'z) pylib_scheme \<Rightarrow> pyval \<Rightarrow> py_error + real" where
  "safe_float_body L x =
     py_float L (case x of PStr s \<Rightarrow> PStr (comma_to_dot s) | _ \<Rightarrow> x)"

definition safe_float :: "('h, 'z) pylib_scheme \<Rightarrow> pyval \<Rightarrow> real" where
  "safe_float L x = (case safe_float_body L x of Inl e \<Rightarrow> 0 | Inr v \<Rightarrow> v)"

text \<open>
  \<^verbatim>\<open>
  def clean_comp(x: object) -> str:
      return str(x).strip().upper()
  \<close>
\<close>

definition clean_comp :: "('h, 'z) pylib_scheme \<Rightarrow> pyval \<Rightarrow> string" where
  "clean_comp L x = py_upper (py_strip (py_str L x))"

section \<open>Stage 3: the BOM explosion\<close>

text \<open>
  \<open>bom_small\<close> is the BOM after \<^verbatim>\<open>dropna\<close>, numeric coercion and renaming: rows of
  \<^verbatim>\<open>(FG, Component, CompQty)\<close>. The plan in long format, as \<^verbatim>\<open>melt\<close> produces it, has one
  row per finished good and date column; a missing quantity is \<open>None\<close>. Quantities are
  numbers (reals): non-numeric plan cells, on which the product raises, and NaN
  quantities are outside the model.
\<close>

record bom_row =
  bFG :: pyval
  bComponent :: pyval
  bCompQty :: real

record 'h plan_row =
  pFG :: pyval
  pDate :: 'h
  pQtyPlanned :: "real option"

record 'h merged_row =
  FG :: pyval
  Component :: pyval
  CompQty :: real
  Date :: 'h
  QtyPlanned :: real
  TotalNeed :: real

text \<open>\<^verbatim>\<open>plan_long = plan_data.melt(...).dropna(subset=["QtyPlanned"])\<close>\<close>

definition dropna :: "'h plan_row list \<Rightarrow> 'h plan_row list" where
  "dropna plan = filter (\<lambda>p. pQtyPlanned p \<noteq> None) plan"

text \<open>
  \<^verbatim>\<open>
  merged = (
      bom_small.merge(plan_long, on="FG", how="inner", copy=False)
      .assign(TotalNeed=lambda d: d["CompQty"] * d["QtyPlanned"])
  )
  \<close>
  The inner join keeps the order of the left keys: every BOM row with its matching plan
  rows. Two finished-good codes match when they are the same value; Python's equality
  across types (\<^verbatim>\<open>1 == 1.0\<close>) is not modelled.
\<close>

definition join_row :: "bom_row \<Rightarrow> 'h plan_row \<Rightarrow> 'h merged_row" where
  "join_row b p =
     \<lparr>FG = bFG b, Component = bComponent b, CompQty = bCompQty b, Date = pDate p,
      QtyPlanned = the (pQtyPlanned p),
      TotalNeed = bCompQty b * the (pQtyPlanned p)\<rparr>"

definition merged :: "bom_row list \<Rightarrow> 'h plan_row list \<Rightarrow> 'h merged_row list" where
  "merged bom_small plan_long =
     concat (map (\<lambda>b. map (join_row b) (filter (\<lambda>p. pFG p = bFG b) plan_long)) bom_small)"

text \<open>
  \<^verbatim>\<open>
  tot_need_df = (
      merged.groupby(["Component", "Date"], as_index=False, sort=False)
      .agg(TotalNeed=("TotalNeed", "sum"))
  )
  \<close>
  One row per key, in the order in which the keys first appear.
\<close>

fun groupby_sum :: "('k \<times> real) list \<Rightarrow> ('k \<times> real) list" where
  "groupby_sum [] = []"
| "groupby_sum ((k, v) # xs) =
     (k, v + sum_list (map snd (filter (\<lambda>r. fst r = k) xs)))
       # groupby_sum (filter (\<lambda>r. fst r \<noteq> k) xs)"

definition tot_need_df :: "'h merged_row list \<Rightarrow> ((pyval \<times> 'h) \<times> real) list" where
  "tot_need_df m = groupby_sum (map (\<lambda>r. ((Component r, Date r), TotalNeed r)) m)"

definition explode :: "bom_row list \<Rightarrow> 'h plan_row list \<Rightarrow> ((pyval \<times> 'h) \<times> real) list" where
  "explode bom_small plan = tot_need_df (merged bom_small (dropna plan))"

text \<open>The sum the specification states for a component and a date: over all pairs of a
  BOM entry of the component and a plan row of the date, with a quantity, for the same
  finished good.\<close>

definition total_need_spec :: "bom_row list \<Rightarrow> 'h plan_row list \<Rightarrow> pyval \<Rightarrow> 'h \<Rightarrow> real" where
  "total_need_spec bom plan c d =
     sum_list (concat (map (\<lambda>b. map (\<lambda>p. bCompQty b * the (pQtyPlanned p))
        (filter (\<lambda>p. pFG p = bFG b \<and> pDate p = d \<and> pQtyPlanned p \<noteq> None) plan))
        (filter (\<lambda>b. bComponent b = c) bom)))"

section \<open>Stage 5: the requirement ledger\<close>

text \<open>
  \<^verbatim>\<open>
  need_lookup = {(clean_comp(r.Component), pd.to_datetime(r.Date).date()): r.TotalNeed
                 for r in tot_need_df.itertuples(index=False)}
  \<close>
  A later row with the same normalised key replaces an earlier one.
\<close>

type_synonym need_map = "string \<times> date \<Rightarrow> real option"

definition need_lookup ::
  "('h, 'z) pylib_scheme \<Rightarrow> ((pyval \<times> 'h) \<times> real) list \<Rightarrow> need_map" where
  "need_lookup L tot =
     fold (\<lambda>r m. m((clean_comp L (fst (fst r)), to_date L (snd (fst r))) \<mapsto> snd r)) tot Map.empty"

text \<open>A worksheet: the value of every cell (row and column count from 1; an empty cell
  holds \<^verbatim>\<open>None\<close>) and \<^verbatim>\<open>max_row\<close>. The coverage sheet is also read through \<^verbatim>\<open>max_column\<close>.\<close>

record sheet =
  cellv :: "nat \<Rightarrow> nat \<Rightarrow> pyval"
  max_row :: nat

record coverage = sheet +
  max_column :: nat

text \<open>
  \<^verbatim>\<open>
  header_row = next((r for r in range(1, ws_req.max_row + 1)
                    if str(ws_req.cell(r, 1).value).strip().lower() == "component"), None)
  if header_row is None:
      raise ValueError("Cannot find 'Component' header in RM TOTAL REQUIREMENT sheet")
  \<close>
\<close>

definition find_component_header :: "('h, 'z) pylib_scheme \<Rightarrow> ('y) sheet_scheme \<Rightarrow> nat option" where
  "find_component_header L ws =
     find (\<lambda>r. py_lower (py_strip (py_str L (cellv ws r 1))) = ''component'')
       [1 ..< max_row ws + 1]"

definition no_component_header :: py_error where
  "no_component_header =
     ValueError (''Cannot find '' @ [CHR 0x27] @ ''Component'' @ [CHR 0x27]
                 @ '' header in RM TOTAL REQUIREMENT sheet'')"

text \<open>\<^verbatim>\<open>date_cols_idx = list(range(2, 2 + len(ordered_dates)))\<close>\<close>

definition date_cols_idx :: "'h list \<Rightarrow> nat list" where
  "date_cols_idx ordered_dates = [2 ..< 2 + length ordered_dates]"

text \<open>
  The body of the inner loop, for one \<^verbatim>\<open>(i, col_idx)\<close>:
  \<^verbatim>\<open>
  day = pd.to_datetime(ordered_dates[i]).date()
  key = (comp, day)
  new_val = need_lookup.get(key)
  if new_val is None:
      continue
  cell = ws_req.cell(r, col_idx)
  old_val = safe_float(cell.value)
  if new_val > old_val:
      cell.value = new_val
  \<close>
\<close>

definition sync_cell ::
  "('h, 'z) pylib_scheme \<Rightarrow> need_map \<Rightarrow> 'h list \<Rightarrow> nat \<Rightarrow> string \<Rightarrow> nat \<times> nat
     \<Rightarrow> sheet \<Rightarrow> sheet" where
  "sync_cell L need ordered_dates r cmp ic ws =
     (case need (cmp, to_date L (ordered_dates ! fst ic)) of
        None \<Rightarrow> ws
      | Some new_val \<Rightarrow>
          if new_val > safe_float L (cellv ws r (snd ic))
          then ws\<lparr>cellv := (cellv ws)(r := (cellv ws r)(snd ic := PFloat new_val))\<rparr>
          else ws)"

text \<open>
  The body of the outer loop, for one row \<open>r\<close>:
  \<^verbatim>\<open>
  comp = clean_comp(ws_req.cell(r, 1).value)
  if not comp:
      continue
  for i, col_idx in enumerate(date_cols_idx): ...
  \<close>
\<close>

definition sync_row ::
  "('h, 'z) pylib_scheme \<Rightarrow> need_map \<Rightarrow> 'h list \<Rightarrow> nat \<Rightarrow> sheet \<Rightarrow> sheet" where
  "sync_row L need ordered_dates r ws =
     (let cmp = clean_comp L (cellv ws r 1) in
      if cmp = [] then ws
      else fold (sync_cell L need ordered_dates r cmp)
             (enumerate 0 (date_cols_idx ordered_dates)) ws)"

definition reconcile ::
  "('h, 'z) pylib_scheme \<Rightarrow> need_map \<Rightarrow> 'h list \<Rightarrow> sheet \<Rightarrow> py_error + sheet" where
  "reconcile L need ordered_dates ws =
     (case find_component_header L ws of
        None \<Rightarrow> Inl no_component_header
      | Some header_row \<Rightarrow>
          Inr (fold (sync_row L need ordered_dates) [header_row + 1 ..< max_row ws + 1] ws))"

text \<open>What the ledger sync leaves in cell \<open>(r, c)\<close> of a row it visits.\<close>

definition synced_cell ::
  "('h, 'z) pylib_scheme \<Rightarrow> need_map \<Rightarrow> 'h list \<Rightarrow> sheet \<Rightarrow> nat \<Rightarrow> nat \<Rightarrow> pyval" where
  "synced_cell L need ordered_dates ws r c =
     (if clean_comp L (cellv ws r 1) \<noteq> [] \<and> 2 \<le> c \<and> c < 2 + length ordered_dates
      then (case need (clean_comp L (cellv ws r 1), to_date L (ordered_dates ! (c - 2))) of
              None \<Rightarrow> cellv ws r c
            | Some new_val \<Rightarrow>
                if new_val > safe_float L (cellv ws r c) then PFloat new_val else cellv ws r c)
      else cellv ws r c)"

section \<open>Stage 6: shortages from the coverage sheet\<close>

text \<open>
  \<^verbatim>\<open>
  fg_map = defaultdict(set)
  for r in merged.itertuples(index=False):
      fg_map[(clean_comp(r.Component), pd.to_datetime(r.Date).date())].add(str(r.FG))
  \<close>
  A key that was never added to holds the empty set.
\<close>

type_synonym fg_sets = "string \<times> date \<Rightarrow> string set"

definition fg_add :: "('h, 'z) pylib_scheme \<Rightarrow> 'h merged_row \<Rightarrow> fg_sets \<Rightarrow> fg_sets" where
  "fg_add L r m =
     (let key = (clean_comp L (Component r), to_date L (Date r))
      in m(key := insert (py_str L (FG r)) (m key)))"

definition fg_map :: "('h, 'z) pylib_scheme \<Rightarrow> 'h merged_row list \<Rightarrow> fg_sets" where
  "fg_map L m = fold (fg_add L) m (\<lambda>key. {})"

text \<open>\<^verbatim>\<open>", ".join(sorted(fg_map[(comp, day)]) or ["\<dots>"])\<close>, where the placeholder is an en
  dash (U+2013, three bytes in UTF-8).\<close>

definition placeholder :: string where
  "placeholder = [CHR 0xE2, CHR 0x80, CHR 0x93]"

fun join_with :: "string \<Rightarrow> string list \<Rightarrow> string" where
  "join_with sep [] = []"
| "join_with sep [x] = x"
| "join_with sep (x # y # ys) = x @ sep @ join_with sep (y # ys)"

definition render_fgs :: "string set \<Rightarrow> string" where
  "render_fgs S =
     join_with '', ''
       (let xs = sorted_list_of_set S in if xs = [] then [placeholder] else xs)"

text \<open>\<^verbatim>\<open>xs[i]\<close> on a list or tuple: a negative index counts from the end, an index out of
  range raises \<^verbatim>\<open>IndexError\<close> with the message given.\<close>

definition py_index :: "string \<Rightarrow> 'a list \<Rightarrow> int \<Rightarrow> py_error + 'a" where
  "py_index msg xs i =
     (if 0 \<le> i \<and> i < int (length xs) then Inr (xs ! nat i)
      else if i < 0 \<and> - int (length xs) \<le> i then Inr (xs ! nat (int (length xs) + i))
      else Inl (IndexError msg))"

text \<open>A loop whose body may raise: the first exception ends it.\<close>

fun for_each :: "('a \<Rightarrow> 's \<Rightarrow> py_error + 's) \<Rightarrow> 'a list \<Rightarrow> 's \<Rightarrow> py_error + 's" where
  "for_each body [] s = Inr s"
| "for_each body (x # xs) s =
     (case body x s of Inl e \<Rightarrow> Inl e | Inr s' \<Rightarrow> for_each body xs s')"

text \<open>
  \<^verbatim>\<open>
  hdr = next(r for r in range(1, ws_cov.max_row + 1) if ws_cov.cell(r, 1).value == "APN")
  n_days = (ws_cov.max_column - 3) // 3
  idx_transit = [4 + n_days + i for i in range(n_days)]
  \<close>
  \<^verbatim>\<open>next\<close> has no default here: with no such row it raises \<^verbatim>\<open>StopIteration\<close>.
\<close>

definition find_apn :: "('y) sheet_scheme \<Rightarrow> nat option" where
  "find_apn ws = find (\<lambda>r. cellv ws r 1 = PStr ''APN'') [1 ..< max_row ws + 1]"

definition n_days :: "coverage \<Rightarrow> int" where
  "n_days ws = (int (max_column ws) - 3) div 3"

definition idx_transit :: "int \<Rightarrow> int list" where
  "idx_transit n = map (\<lambda>i. 4 + n + int i) [0 ..< nat n]"

text \<open>A row as \<^verbatim>\<open>iter_rows(..., max_col=3 + 3 * n_days, values_only=True)\<close> yields it: the
  values of the columns 1 to \<^verbatim>\<open>max_col\<close>. (A sheet of fewer than three columns, where
  \<^verbatim>\<open>max_col\<close> is not positive, is outside the model.)\<close>

definition row_values :: "coverage \<Rightarrow> int \<Rightarrow> nat \<Rightarrow> pyval list" where
  "row_values ws n r = map (cellv ws r) [1 ..< nat (3 + 3 * n) + 1]"

type_synonym shortage = "date \<times> string \<times> string"

text \<open>
  The body of the day loop, for one \<^verbatim>\<open>(i, day)\<close>; the state is \<^verbatim>\<open>prev\<close> and the list
  \<^verbatim>\<open>shortages\<close>:
  \<^verbatim>\<open>
  if i:
      prev += safe_float(row[idx_transit[i - 1] - 1])
  need = need_lookup.get((comp, day), 0.0)
  balance = prev - need
  if balance < 0:
      fgs = ", ".join(sorted(fg_map[(comp, day)]) or ["\<dots>"])
      shortages.append((day, comp, fgs))
  prev = balance
  \<close>
\<close>

definition day_step ::
  "('h, 'z) pylib_scheme \<Rightarrow> need_map \<Rightarrow> fg_sets \<Rightarrow> pyval list \<Rightarrow> int list \<Rightarrow> string
     \<Rightarrow> nat \<times> date \<Rightarrow> real \<times> shortage list \<Rightarrow> py_error + (real \<times> shortage list)" where
  "day_step L need fgm row idx cmp iday st =
     (case (if fst iday \<noteq> 0
            then (case py_index ''list index out of range'' idx (int (fst iday) - 1) of
                    Inl e \<Rightarrow> Inl e
                  | Inr t \<Rightarrow>
                      (case py_index ''tuple index out of range'' row (t - 1) of
                         Inl e \<Rightarrow> Inl e
                       | Inr v \<Rightarrow> Inr (fst st + safe_float L v)))
            else Inr (fst st)) of
        Inl e \<Rightarrow> Inl e
      | Inr prev \<Rightarrow>
          (let need_today = (case need (cmp, snd iday) of None \<Rightarrow> 0 | Some v \<Rightarrow> v);
               balance = prev - need_today
           in Inr (balance,
                   if balance < 0
                   then snd st @ [(snd iday, cmp, render_fgs (fgm (cmp, snd iday)))]
                   else snd st)))"

text \<open>
  The body of the row loop:
  \<^verbatim>\<open>
  comp = clean_comp(row[0])
  if not comp:
      continue
  stock = safe_float(row[1])
  wip = safe_float(row[2])
  prev = stock + wip
  for i, day in enumerate(ordered_dates): ...
  \<close>
\<close>

definition cov_row ::
  "('h, 'z) pylib_scheme \<Rightarrow> need_map \<Rightarrow> fg_sets \<Rightarrow> date list \<Rightarrow> int list \<Rightarrow> pyval list
     \<Rightarrow> shortage list \<Rightarrow> py_error + shortage list" where
  "cov_row L need fgm days idx row shortages =
     (case py_index ''tuple index out of range'' row 0 of
        Inl e \<Rightarrow> Inl e
      | Inr x0 \<Rightarrow>
          (let cmp = clean_comp L x0 in
           if cmp = [] then Inr shortages
           else
             (case py_index ''tuple index out of range'' row 1 of
                Inl e \<Rightarrow> Inl e
              | Inr x1 \<Rightarrow>
                  (case py_index ''tuple index out of range'' row 2 of
                     Inl e \<Rightarrow> Inl e
                   | Inr x2 \<Rightarrow>
                       (let stock = safe_float L x1; wip = safe_float L x2
                        in case for_each (day_step L need fgm row idx cmp)
                                  (enumerate 0 days) (stock + wip, shortages) of
                             Inl e \<Rightarrow> Inl e
                           | Inr st \<Rightarrow> Inr (snd st))))))"

text \<open>
  The whole stage; \<^verbatim>\<open>ordered_dates\<close> are the plan's date columns, converted to dates first.
  The result is \<^verbatim>\<open>short_df\<close>: the shortages sorted by date, then component.
\<close>

definition simulate ::
  "('h, 'z) pylib_scheme \<Rightarrow> need_map \<Rightarrow> fg_sets \<Rightarrow> 'h list \<Rightarrow> coverage
     \<Rightarrow> py_error + shortage list" where
  "simulate L need fgm ordered_dates ws =
     (case find_apn ws of
        None \<Rightarrow> Inl StopIteration
      | Some hdr \<Rightarrow>
          (let n = n_days ws; idx = idx_transit n; days = map (to_date L) ordered_dates
           in case for_each (\<lambda>r. cov_row L need fgm days idx (row_values ws n r))
                     [hdr + 1 ..< max_row ws + 1] [] of
                Inl e \<Rightarrow> Inl e
              | Inr shortages \<Rightarrow> Inr (sort_key (\<lambda>s. (fst s, fst (snd s))) shortages)))"

text \<open>The recurrence the specification states for the running balance of one coverage
  row: \<open>b0\<close> is stock plus work in progress, \<open>transit k\<close> the \<open>k\<close>-th intransit figure,
  \<open>nd i\<close> the need of day \<open>i\<close>.\<close>

fun balance_spec :: "real \<Rightarrow> (nat \<Rightarrow> real) \<Rightarrow> (nat \<Rightarrow> real) \<Rightarrow> nat \<Rightarrow> real" where
  "balance_spec b0 transit nd 0 = b0 - nd 0"
| "balance_spec b0 transit nd (Suc i) = balance_spec b0 transit nd i + transit i - nd (Suc i)"

text \<open>The shortages the specification states for one coverage row: one for every day
  whose balance is negative, in the order of the days.\<close>

definition shortages_spec ::
  "fg_sets \<Rightarrow> date list \<Rightarrow> string \<Rightarrow> (nat \<Rightarrow> real) \<Rightarrow> shortage list" where
  "shortages_spec fgm days cmp bal =
     map (\<lambda>i. (days ! i, cmp, render_fgs (fgm (cmp, days ! i))))
       (filter (\<lambda>i. bal i < 0) [0 ..< length days])"

definition need_of :: "need_map \<Rightarrow> string \<Rightarrow> date list \<Rightarrow> nat \<Rightarrow> real" where
  "need_of need cmp days i = (case need (cmp, days ! i) of None \<Rightarrow> 0 | Some v \<Rightarrow> v)"

text \<open>The finished goods behind a component and a date: the codes, as text, of the BOM
  entries of the component (normalised) that join a plan row of that date with a
  quantity. The specification asks for less: only the plan rows whose quantity is not
  zero.\<close>

definition causing_fgs ::
  "('h, 'z) pylib_scheme \<Rightarrow> bom_row list \<Rightarrow> 'h plan_row list \<Rightarrow> string \<Rightarrow> date \<Rightarrow> string set" where
  "causing_fgs L bom plan c d =
     set (concat (map (\<lambda>b. map (\<lambda>p. py_str L (bFG b))
            (filter (\<lambda>p. pFG p = bFG b \<and> pQtyPlanned p \<noteq> None \<and> to_date L (pDate p) = d) plan))
          (filter (\<lambda>b. clean_comp L (bComponent b) = c) bom)))"

definition causing_fgs_nonzero ::
  "('h, 'z) pylib_scheme \<Rightarrow> bom_row list \<Rightarrow> 'h plan_row list \<Rightarrow> string \<Rightarrow> date \<Rightarrow> string set" where
  "causing_fgs_nonzero L bom plan c d =
     set (concat (map (\<lambda>b. map (\<lambda>p. py_str L (bFG b))
            (filter (\<lambda>p. pFG p = bFG b \<and> pQtyPlanned p \<noteq> None \<and> pQtyPlanned p \<noteq> Some 0
                         \<and> to_date L (pDate p) = d) plan))
          (filter (\<lambda>b. clean_comp L (bComponent b) = c) bom)))"

section \<open>An instance of the library functions, for evaluation\<close>

text \<open>A library whose \<^verbatim>\<open>float\<close> parses three strings and rejects every other one, whose
  \<^verbatim>\<open>str\<close> of a float is not needed, and whose column labels are day numbers already.\<close>

definition example_lib :: "nat pylib" where
  "example_lib =
     \<lparr>float_of_str = (\<lambda>s. if s = ''1.5'' then Some (3 / 2)
                           else if s = ''10'' then Some 10
                           else if s = ''-2'' then Some (- 2) else None),
      str_of_float = (\<lambda>r. ''float''),
      to_date = (\<lambda>h. h)\<rparr>"

text \<open>A ledger of two rows: the header row, and one row with a component label and the
  cell of the first date column.\<close>

definition ledger_of :: "pyval \<Rightarrow> pyval \<Rightarrow> sheet" where
  "ledger_of label v =
     \<lparr>cellv = (\<lambda>r c. if r = 1 \<and> c = 1 then PStr ''Component''
                     else if r = 2 \<and> c = 1 then label
                     else if r = 2 \<and> c = 2 then v
                     else PNone),
      max_row = 2\<rparr>"

text \<open>The need lookup of an explosion with one row: component \<open>c\<close> needs 10 on day 1.\<close>

definition need_10 :: "pyval \<Rightarrow> need_map" where
  "need_10 c = need_lookup example_lib [((c, 1), 10)]"

text \<open>A coverage sheet given by its rows, each a list of cell values from column 1 on.\<close>

definition sheet_of_rows :: "pyval list list \<Rightarrow> coverage" where
  "sheet_of_rows rows =
     \<lparr>cellv = (\<lambda>r c. if 1 \<le> r \<and> r \<le> length rows \<and> 1 \<le> c \<and> c \<le> length (rows ! (r - 1))
                     then rows ! (r - 1) ! (c - 1) else PNone),
      max_row = length rows,
      max_column = fold max (map length rows) 0\<rparr>"

text \<open>Component C1 with no stock, no work in progress and 10 in transit for day 2, in the
  layout of three leading columns and two blocks of two date columns (7 columns), and
  in the layout with three such blocks (9 columns).\<close>

definition cov7 :: coverage where
  "cov7 = sheet_of_rows
     [[PStr ''APN''],
      [PStr ''C1'', PInt 0, PInt 0, PInt 0, PInt 0, PInt 10, PInt 0]]"

definition cov9 :: coverage where
  "cov9 = sheet_of_rows
     [[PStr ''APN''],
      [PStr ''C1'', PInt 0, PInt 0, PInt 0, PInt 0, PInt 10, PInt 0, PInt 0, PInt 0]]"

text \<open>Component C1 with a stock of 5 and 3 in transit for day 2, in the layout with
  three blocks of two date columns (9 columns); and in the layout of three leading
  columns and two blocks of four date columns (11 columns).\<close>

definition cov9_carry :: coverage where
  "cov9_carry = sheet_of_rows
     [[PStr ''APN''],
      [PStr ''C1'', PInt 5, PInt 0, PInt 0, PInt 0, PInt 3, PInt 0, PInt 0, PInt 0]]"

definition cov11 :: coverage where
  "cov11 = sheet_of_rows
     [[PStr ''APN''],
      [PStr ''C1'', PInt 5, PInt 0, PInt 0, PInt 0, PInt 0, PInt 0,
       PInt 3, PInt 0, PInt 0, PInt 0]]"

text \<open>The example of the specification: component C1 with a stock of 8.\<close>

definition cov3 :: coverage where
  "cov3 = sheet_of_rows [[PStr ''APN''], [PStr ''C1'', PInt 8, PInt 0]]"

text \<open>A coverage sheet with no \<^verbatim>\<open>APN\<close> cell in its first column.\<close>

definition cov_no_apn :: coverage where
  "cov_no_apn = sheet_of_rows [[PStr ''Component''], [PStr ''C1'', PInt 8, PInt 0]]"

text \<open>Two finished goods that use component C1, one of them planned with quantity 0.\<close>

definition bom_ex :: "bom_row list" where
  "bom_ex = [\<lparr>bFG = PStr ''FG1'', bComponent = PStr ''C1'', bCompQty = 2\<rparr>,
             \<lparr>bFG = PStr ''FG2'', bComponent = PStr ''C1'', bCompQty = 1\<rparr>]"

definition plan_ex :: "nat plan_row list" where
  "plan_ex = [\<lparr>pFG = PStr ''FG1'', pDate = 1, pQtyPlanned = Some 5\<rparr>,
              \<lparr>pFG = PStr ''FG2'', pDate = 1, pQtyPlanned = Some 0\<rparr>]"

section \<open>Properties\<close>

lemma safe_float_num [simp]:
  "safe_float L (PFloat r) = r"
  "safe_float L (PInt i) = real_of_int i"
  "safe_float L (PBool b) = (if b then 1 else 0)"
  "safe_float L PNone = 0"
  "safe_float L (PObj s) = 0"
  by (simp_all add: safe_float_def safe_float_body_def)

lemma safe_float_str:
  "safe_float L (PStr s) = (case float_of_str L (comma_to_dot s) of None \<Rightarrow> 0 | Some r \<Rightarrow> r)"
  by (simp add: safe_float_def safe_float_body_def split: option.splits)

subsection \<open>The ledger sync, cell by cell\<close>

lemma cellv_sync_cell:
  "cellv (sync_cell L need ds r cmp ic ws) r' c =
     (if r' = r \<and> c = snd ic
      then (case need (cmp, to_date L (ds ! fst ic)) of
              None \<Rightarrow> cellv ws r c
            | Some n \<Rightarrow> if n > safe_float L (cellv ws r c) then PFloat n else cellv ws r c)
      else cellv ws r' c)"
  by (simp add: sync_cell_def split: option.splits)

lemma max_row_sync_cell: "max_row (sync_cell L need ds r cmp ic ws) = max_row ws"
  by (simp add: sync_cell_def split: option.splits)

lemma enumerate_upt_snoc:
  "enumerate 0 [a ..< a + Suc k] = enumerate 0 [a ..< a + k] @ [(k, a + k)]"
proof -
  have len: "length [a ..< a + k] = k" by simp
  have "[a ..< a + Suc k] = [a ..< a + k] @ [a + k]" by simp
  then have "enumerate 0 [a ..< a + Suc k] = enumerate 0 ([a ..< a + k] @ [a + k])"
    by (rule arg_cong)
  also have "\<dots> = enumerate 0 [a ..< a + k] @ enumerate (0 + length [a ..< a + k]) [a + k]"
    by (rule enumerate_append_eq)
  also have "\<dots> = enumerate 0 [a ..< a + k] @ [(k, a + k)]"
    unfolding len by simp
  finally show ?thesis .
qed

lemma fold_sync_cells:
  "cellv (fold (sync_cell L need ds r cmp) (enumerate 0 [a ..< a + k]) ws) r' c =
     (if r' = r \<and> a \<le> c \<and> c < a + k
      then (case need (cmp, to_date L (ds ! (c - a))) of
              None \<Rightarrow> cellv ws r c
            | Some n \<Rightarrow> if n > safe_float L (cellv ws r c) then PFloat n else cellv ws r c)
      else cellv ws r' c)"
proof (induction k arbitrary: r' c)
  case 0
  then show ?case by auto
next
  case (Suc k)
  let ?W = "fold (sync_cell L need ds r cmp) (enumerate 0 [a ..< a + k]) ws"
  have step: "fold (sync_cell L need ds r cmp) (enumerate 0 [a ..< a + Suc k]) ws
      = sync_cell L need ds r cmp (k, a + k) ?W"
    unfolding enumerate_upt_snoc by simp
  have old: "cellv ?W r (a + k) = cellv ws r (a + k)"
    by (simp add: Suc)
  show ?case
  proof (cases "r' = r \<and> c = a + k")
    case True
    then show ?thesis
      unfolding step by (simp add: cellv_sync_cell old split: option.splits)
  next
    case False
    then have "cellv (sync_cell L need ds r cmp (k, a + k) ?W) r' c = cellv ?W r' c"
      by (auto simp add: cellv_sync_cell)
    with False show ?thesis
      unfolding step by (auto simp add: Suc)
  qed
qed

lemma max_row_fold_sync_cells:
  "max_row (fold (sync_cell L need ds r cmp) xs ws) = max_row ws"
  by (induction xs arbitrary: ws) (simp_all add: max_row_sync_cell)

lemma cellv_sync_row:
  "cellv (sync_row L need ds r ws) r' c =
     (if r' = r then synced_cell L need ds ws r c else cellv ws r' c)"
proof (cases "clean_comp L (cellv ws r 1) = []")
  case True
  then show ?thesis by (simp add: sync_row_def synced_cell_def)
next
  case False
  then have "sync_row L need ds r ws =
      fold (sync_cell L need ds r (clean_comp L (cellv ws r 1)))
        (enumerate 0 [2 ..< 2 + length ds]) ws"
    by (simp only: sync_row_def date_cols_idx_def Let_def if_False)
  then show ?thesis
    using False by (simp only: fold_sync_cells synced_cell_def) auto
qed

lemma max_row_sync_row: "max_row (sync_row L need ds r ws) = max_row ws"
  by (simp add: sync_row_def Let_def max_row_fold_sync_cells)

lemma synced_cell_cong:
  assumes "\<And>c. cellv W r c = cellv ws r c"
  shows "synced_cell L need ds W r c = synced_cell L need ds ws r c"
  by (simp add: synced_cell_def assms cong: option.case_cong if_cong)

lemma fold_sync_rows:
  "cellv (fold (sync_row L need ds) [a ..< b] ws) r c =
     (if a \<le> r \<and> r < b then synced_cell L need ds ws r c else cellv ws r c)"
proof (induction b arbitrary: r c)
  case 0
  then show ?case by simp
next
  case (Suc b)
  show ?case
  proof (cases "a \<le> b")
    case True
    let ?W = "fold (sync_row L need ds) [a ..< b] ws"
    have row_b: "\<And>c. cellv ?W b c = cellv ws b c"
      by (simp add: Suc)
    show ?thesis
      using True
      by (auto simp add: cellv_sync_row synced_cell_cong [OF row_b] Suc less_Suc_eq)
  next
    case False
    then show ?thesis by auto
  qed
qed

lemma max_row_fold_sync_rows:
  "max_row (fold (sync_row L need ds) xs ws) = max_row ws"
  by (induction xs arbitrary: ws) (simp_all add: max_row_sync_row)

lemma reconcile_cells:
  assumes "reconcile L need ds ws = Inr ws'"
  shows "\<exists>h. find_component_header L ws = Some h \<and> max_row ws' = max_row ws \<and>
           (\<forall>r c. cellv ws' r c =
              (if h < r \<and> r \<le> max_row ws then synced_cell L need ds ws r c else cellv ws r c))"
proof -
  from assms obtain h where h: "find_component_header L ws = Some h"
    and ws': "ws' = fold (sync_row L need ds) [h + 1 ..< max_row ws + 1] ws"
    by (auto simp add: reconcile_def split: option.splits simp del: upt_Suc)
  have "cellv ws' r c =
      (if h < r \<and> r \<le> max_row ws then synced_cell L need ds ws r c else cellv ws r c)" for r c
    unfolding ws' fold_sync_rows by auto
  moreover have "max_row ws' = max_row ws"
    unfolding ws' by (rule max_row_fold_sync_rows)
  ultimately show ?thesis using h by blast
qed

lemma synced_cell_idem:
  assumes "\<And>c. cellv W r c = synced_cell L need ds ws r c"
  shows "synced_cell L need ds W r c = synced_cell L need ds ws r c"
proof -
  have c1: "cellv W r 1 = cellv ws r 1"
    using assms [of 1] by (simp add: synced_cell_def)
  show ?thesis
    using assms [of c] c1
    by (auto simp add: synced_cell_def split: option.splits)
qed

lemma header_unchanged:
  assumes "max_row W = max_row ws" and "\<And>r. cellv W r 1 = cellv ws r 1"
  shows "find_component_header L W = find_component_header L ws"
  using assms by (simp add: find_component_header_def)

subsection \<open>\<open>safe_float\<close>\<close>

text \<open>
  C8. \<open>safe_float\<close> is total: where the body of its \<^verbatim>\<open>try\<close> raises, whatever the
  exception, the result is \<open>0.0\<close>, and where it returns, the result is that value. A number
  gives its value (a bool counts as a number), a string is parsed after every comma is
  replaced by a point, and a string that does not parse, \<^verbatim>\<open>None\<close> and an object of
  another type give \<open>0.0\<close>.
\<close>

theorem safe_float_contract:
  "(case safe_float_body L x of Inl e \<Rightarrow> safe_float L x = 0 | Inr v \<Rightarrow> safe_float L x = v)
   \<and> safe_float L (PInt i) = real_of_int i
   \<and> safe_float L (PFloat r) = r
   \<and> safe_float L (PBool b) = (if b then 1 else 0)
   \<and> safe_float L (PStr s) = (case float_of_str L (comma_to_dot s) of None \<Rightarrow> 0 | Some v \<Rightarrow> v)
   \<and> safe_float L PNone = 0
   \<and> safe_float L (PObj t) = 0"
  by (simp add: safe_float_str) (simp add: safe_float_def split: sum.splits)

theorem safe_float_contract_witness:
  "safe_float example_lib (PStr ''1,5'') = 3 / 2
   \<and> safe_float example_lib (PStr ''abc'') = 0
   \<and> safe_float example_lib (PInt 7) = 7
   \<and> safe_float example_lib PNone = 0"
  using safe_float_contract [of example_lib PNone 7 0 True "''1,5''" "''x''"]
        safe_float_contract [of example_lib PNone 7 0 True "''abc''" "''x''"]
  by (simp add: example_lib_def comma_to_dot_def)

subsection \<open>The example ledgers, evaluated\<close>

lemma header_ledger_of: "find_component_header L (ledger_of label v) = Some 1"
proof -
  have "[1 ..< max_row (ledger_of label v) + 1] = [1, 2]"
    by (simp add: ledger_of_def upt_rec)
  moreover have "py_lower (py_strip (py_str L (cellv (ledger_of label v) 1 1))) = ''component''"
    by (simp add: ledger_of_def py_lower_def py_strip_def is_space_def lower_char_def)
  ultimately show ?thesis
    by (simp add: find_component_header_def)
qed

lemma reconcile_ledger_of:
  "reconcile L need [h] (ledger_of label v) =
     Inr (ledger_of label (synced_cell L need [h] (ledger_of label v) 2 2))"
proof -
  let ?ws = "ledger_of label v"
  let ?W = "fold (sync_row L need [h]) [1 + 1 ..< max_row ?ws + 1] ?ws"
  have "cellv ?W r c = cellv (ledger_of label (synced_cell L need [h] ?ws 2 2)) r c" for r c
    unfolding fold_sync_rows
    by (auto simp add: ledger_of_def synced_cell_def)
  then have "cellv ?W = cellv (ledger_of label (synced_cell L need [h] ?ws 2 2))"
    by (intro ext)
  moreover have "max_row ?W = max_row (ledger_of label (synced_cell L need [h] ?ws 2 2))"
    by (simp add: max_row_fold_sync_rows ledger_of_def)
  ultimately have "?W = ledger_of label (synced_cell L need [h] ?ws 2 2)"
    by (simp add: sheet.equality)
  then show ?thesis
    by (simp add: reconcile_def header_ledger_of del: upt_Suc)
qed

lemma clean_comp_c1: "clean_comp example_lib (PStr '' c1 '') = ''C1''"
  by (simp add: clean_comp_def py_upper_def py_strip_def is_space_def upper_char_def)

lemma clean_comp_c1': "clean_comp example_lib (PStr ''c1'') = ''C1''"
  by (simp add: clean_comp_def py_upper_def py_strip_def is_space_def upper_char_def)

lemma clean_comp_blank: "clean_comp L (PStr '' '') = ''''"
  by (simp add: clean_comp_def py_upper_def py_strip_def is_space_def upper_char_def)

lemma clean_comp_None: "clean_comp L PNone = ''NONE''"
  by (simp add: clean_comp_def py_upper_def py_strip_def is_space_def upper_char_def)

lemma clean_comp_none: "clean_comp L (PStr ''none'') = ''NONE''"
  by (simp add: clean_comp_def py_upper_def py_strip_def is_space_def upper_char_def)

lemma need_10_key: "need_10 c (k, d) = (if k = clean_comp example_lib c \<and> d = 1 then Some 10 else None)"
  by (simp add: need_10_def need_lookup_def example_lib_def)

lemma to_date_example: "to_date example_lib h = h"
  by (simp add: example_lib_def)

lemma ledger_of_cells:
  "cellv (ledger_of label v) 2 (Suc 0) = label" "cellv (ledger_of label v) 2 2 = v"
  by (simp_all add: ledger_of_def)

lemma reconcile_example: "reconcile example_lib (need_10 (PStr '' c1 '')) [1] (ledger_of (PStr ''c1'') (PStr ''1,5''))
   = Inr (ledger_of (PStr ''c1'') (PFloat 10))"
proof -
  have sf: "safe_float example_lib (PStr ''1,5'') = 3 / 2"
    by (simp add: safe_float_str comma_to_dot_def example_lib_def)
  have "synced_cell example_lib (need_10 (PStr '' c1 '')) [1] (ledger_of (PStr ''c1'') (PStr ''1,5'')) 2 2
      = PFloat 10"
    by (simp add: synced_cell_def ledger_of_cells need_10_key clean_comp_c1 clean_comp_c1' to_date_example sf)
  then show ?thesis
    unfolding reconcile_ledger_of by simp
qed

lemma reconcile_blank_example: "reconcile example_lib (need_10 (PStr '' '')) [1] (ledger_of (PStr '' '') (PInt 0))
   = Inr (ledger_of (PStr '' '') (PInt 0))"
proof -
  have "synced_cell example_lib (need_10 (PStr '' '')) [1] (ledger_of (PStr '' '') (PInt 0)) 2 2
      = PInt 0"
    by (simp add: synced_cell_def ledger_of_cells clean_comp_blank)
  then show ?thesis
    unfolding reconcile_ledger_of by simp
qed


lemma synced_cell_mono:
  "safe_float L (cellv ws r c) \<le> safe_float L (synced_cell L need ds ws r c)"
  by (simp add: synced_cell_def split: option.splits)

lemma sync_row_blank:
  "clean_comp L (cellv ws r 1) = [] \<Longrightarrow> sync_row L need ds r ws = ws"
  by (simp add: sync_row_def)

subsection \<open>The ledger sync: claims\<close>

text \<open>
  C3 (as amended). After the ledger sync, in every row below the header (up to
  \<^verbatim>\<open>max_row\<close>) whose normalised component label is not empty, and in every date column
  (columns 2 to 1 + N): if the need lookup has a value for the label and the column's
  date, the cell's numeric value is the maximum of its former numeric value and that
  need; if the lookup has none, the cell is untouched. And the numeric value of no cell
  of the sheet decreases.

  As stated, for every row whose label matches a need key, the claim fails on a row
  whose label is blank when the explosion has a component that is blank too: the row is
  skipped by the guard \<^verbatim>\<open>if not comp: continue\<close>.
\<close>

theorem reconcile_max_overwrite:
  assumes "reconcile L need ds ws = Inr ws'"
    and "find_component_header L ws = Some h"
    and "h < r" and "r \<le> max_row ws" and "2 \<le> c" and "c \<le> 1 + length ds"
    and "clean_comp L (cellv ws r 1) \<noteq> []"
  shows "(case need (clean_comp L (cellv ws r 1), to_date L (ds ! (c - 2))) of
            None \<Rightarrow> cellv ws' r c = cellv ws r c
          | Some n \<Rightarrow> safe_float L (cellv ws' r c) = max (safe_float L (cellv ws r c)) n)
         \<and> (\<forall>r' c'. safe_float L (cellv ws r' c') \<le> safe_float L (cellv ws' r' c'))"
proof -
  from reconcile_cells [OF assms(1)] assms(2) have
    cells: "\<And>r c. cellv ws' r c =
       (if h < r \<and> r \<le> max_row ws then synced_cell L need ds ws r c else cellv ws r c)"
    by auto
  have "cellv ws' r c = synced_cell L need ds ws r c"
    using assms(3,4) by (simp add: cells)
  then have first: "case need (clean_comp L (cellv ws r 1), to_date L (ds ! (c - 2))) of
            None \<Rightarrow> cellv ws' r c = cellv ws r c
          | Some n \<Rightarrow> safe_float L (cellv ws' r c) = max (safe_float L (cellv ws r c)) n"
    using assms(5,6,7) by (simp add: synced_cell_def max_def split: option.splits)
  have "safe_float L (cellv ws r' c') \<le> safe_float L (cellv ws' r' c')" for r' c'
    by (simp add: cells synced_cell_mono)
  with first show ?thesis by blast
qed

theorem reconcile_max_overwrite_witness:
  "safe_float example_lib (cellv (ledger_of (PStr ''c1'') (PFloat 10)) 2 2)
     = max (safe_float example_lib (cellv (ledger_of (PStr ''c1'') (PStr ''1,5'')) 2 2)) 10"
  using reconcile_max_overwrite [OF reconcile_example header_ledger_of, of 2 2]
  by (simp add: ledger_of_cells clean_comp_c1' need_10_key clean_comp_c1 to_date_example
        ledger_of_def)

theorem reconcile_blank_label_counterexample:
  "reconcile example_lib (need_10 (PStr '' '')) [1] (ledger_of (PStr '' '') (PInt 0))
     = Inr (ledger_of (PStr '' '') (PInt 0))
   \<and> need_10 (PStr '' '')
        (clean_comp example_lib (cellv (ledger_of (PStr '' '') (PInt 0)) 2 1),
         to_date example_lib ([1] ! (2 - 2))) = Some 10
   \<and> safe_float example_lib (cellv (ledger_of (PStr '' '') (PInt 0)) 2 2)
        \<noteq> max (safe_float example_lib (cellv (ledger_of (PStr '' '') (PInt 0)) 2 2)) 10"
  using reconcile_blank_example
  by (simp add: ledger_of_cells need_10_key clean_comp_blank to_date_example)

subsection \<open>Blank labels\<close>

text \<open>
  C6. A ledger row whose label cell is empty holds \<^verbatim>\<open>None\<close>; \<^verbatim>\<open>clean_comp\<close> turns it into
  the text \<^verbatim>\<open>NONE\<close>, which is not empty, so the row is not skipped: with a BOM
  component named \<^verbatim>\<open>none\<close> that needs 10 on day 1, the cell of day 1 in that row is
  overwritten (1 becomes 10).
\<close>

theorem reconcile_empty_label_not_skipped:
  "clean_comp example_lib PNone = ''NONE''
   \<and> reconcile example_lib (need_10 (PStr ''none'')) [1] (ledger_of PNone (PInt 1))
       = Inr (ledger_of PNone (PFloat 10))"
proof -
  have "synced_cell example_lib (need_10 (PStr ''none'')) [1] (ledger_of PNone (PInt 1)) 2 2
      = PFloat 10"
    by (simp add: synced_cell_def ledger_of_cells need_10_key clean_comp_none clean_comp_None
          to_date_example)
  then show ?thesis
    unfolding reconcile_ledger_of by (simp add: clean_comp_None)
qed

subsection \<open>Idempotence and footprint\<close>

text \<open>
  C9. Running the ledger sync again, with the same need lookup and the same dates, on a
  ledger it has already synced changes nothing.
\<close>

theorem reconcile_idempotent:
  assumes "reconcile L need ds ws = Inr ws'"
  shows "reconcile L need ds ws' = Inr ws'"
proof -
  from reconcile_cells [OF assms] obtain h where
    h: "find_component_header L ws = Some h" and mr: "max_row ws' = max_row ws" and
    cells: "\<And>r c. cellv ws' r c =
       (if h < r \<and> r \<le> max_row ws then synced_cell L need ds ws r c else cellv ws r c)"
    by blast
  have col1: "\<And>r. cellv ws' r 1 = cellv ws r 1"
    by (simp add: cells synced_cell_def)
  have h': "find_component_header L ws' = Some h"
    unfolding header_unchanged [of ws' ws L, OF mr col1] by (rule h)
  let ?W = "fold (sync_row L need ds) [h + 1 ..< max_row ws' + 1] ws'"
  have "cellv ?W r c = cellv ws' r c" for r c
  proof (cases "h < r \<and> r \<le> max_row ws")
    case True
    then have "\<And>c. cellv ws' r c = synced_cell L need ds ws r c"
      by (simp add: cells)
    from synced_cell_idem [of ws' r L need ds ws, OF this]
    show ?thesis using True unfolding fold_sync_rows by (simp add: mr cells)
  next
    case False
    then show ?thesis unfolding fold_sync_rows by (auto simp add: mr)
  qed
  then have "cellv ?W = cellv ws'" by (intro ext)
  moreover have "max_row ?W = max_row ws'" by (simp add: max_row_fold_sync_rows)
  ultimately have "?W = ws'" by (simp add: sheet.equality)
  then show ?thesis by (simp add: reconcile_def h' del: upt_Suc)
qed


theorem reconcile_idempotent_witness:
  "reconcile example_lib (need_10 (PStr '' c1 '')) [1] (ledger_of (PStr ''c1'') (PFloat 10))
     = Inr (ledger_of (PStr ''c1'') (PFloat 10))"
  using reconcile_idempotent [OF reconcile_example] .

text \<open>
  C10. The ledger sync leaves \<^verbatim>\<open>max_row\<close> as it is and writes only below the header row,
  up to \<^verbatim>\<open>max_row\<close>, and in the columns 2 to 1 + N: every other cell keeps its value. A
  cell whose value changes holds the need looked up for its row's label and its column's
  date, and that need is strictly greater than the cell's former numeric value.
\<close>

theorem reconcile_footprint:
  assumes "reconcile L need ds ws = Inr ws'"
    and "find_component_header L ws = Some h"
  shows "max_row ws' = max_row ws
     \<and> (\<forall>r c. r \<le> h \<or> max_row ws < r \<or> c < 2 \<or> 1 + length ds < c
            \<longrightarrow> cellv ws' r c = cellv ws r c)
     \<and> (\<forall>r c. cellv ws' r c \<noteq> cellv ws r c \<longrightarrow>
            (\<exists>n. need (clean_comp L (cellv ws r 1), to_date L (ds ! (c - 2))) = Some n
                 \<and> safe_float L (cellv ws r c) < n \<and> cellv ws' r c = PFloat n))"
proof -
  from reconcile_cells [OF assms(1)] assms(2) have
    mr: "max_row ws' = max_row ws" and
    cells: "\<And>r c. cellv ws' r c =
       (if h < r \<and> r \<le> max_row ws then synced_cell L need ds ws r c else cellv ws r c)"
    by auto
  have frame: "cellv ws' r c = cellv ws r c"
    if "r \<le> h \<or> max_row ws < r \<or> c < 2 \<or> 1 + length ds < c" for r c
    using that by (auto simp add: cells synced_cell_def)
  have written: "\<exists>n. need (clean_comp L (cellv ws r 1), to_date L (ds ! (c - 2))) = Some n
                 \<and> safe_float L (cellv ws r c) < n \<and> cellv ws' r c = PFloat n"
    if "cellv ws' r c \<noteq> cellv ws r c" for r c
    using that by (auto simp add: cells synced_cell_def split: if_splits option.splits)
  from mr frame written show ?thesis by blast
qed

theorem reconcile_footprint_witness:
  "max_row (ledger_of (PStr ''c1'') (PFloat 10)) = max_row (ledger_of (PStr ''c1'') (PStr ''1,5''))
   \<and> cellv (ledger_of (PStr ''c1'') (PFloat 10)) 2 1 = cellv (ledger_of (PStr ''c1'') (PStr ''1,5'')) 2 1
   \<and> cellv (ledger_of (PStr ''c1'') (PFloat 10)) 1 2 = cellv (ledger_of (PStr ''c1'') (PStr ''1,5'')) 1 2
   \<and> cellv (ledger_of (PStr ''c1'') (PFloat 10)) 2 3 = cellv (ledger_of (PStr ''c1'') (PStr ''1,5'')) 2 3
   \<and> cellv (ledger_of (PStr ''c1'') (PFloat 10)) 2 2 \<noteq> cellv (ledger_of (PStr ''c1'') (PStr ''1,5'')) 2 2"
  using reconcile_footprint [OF reconcile_example header_ledger_of]
  by (simp add: ledger_of_def)

subsection \<open>The coverage simulation, day by day\<close>

lemma py_index_in_range:
  "0 \<le> i \<Longrightarrow> i < int (length xs) \<Longrightarrow> py_index msg xs i = Inr (xs ! nat i)"
  by (simp add: py_index_def)

lemma day_step_ok:
  assumes "j < length days" and "length days \<le> Suc (length idx)"
    and "\<forall>t\<in>set idx. 1 \<le> t \<and> t \<le> int (length row)"
  shows "day_step L need fgm row idx cmp (j, days ! j)
           (if j = 0 then b0
            else balance_spec b0 (\<lambda>k. safe_float L (row ! nat (idx ! k - 1)))
                   (need_of need cmp days) (j - 1), sh)
         = Inr (balance_spec b0 (\<lambda>k. safe_float L (row ! nat (idx ! k - 1)))
                  (need_of need cmp days) j,
                if balance_spec b0 (\<lambda>k. safe_float L (row ! nat (idx ! k - 1)))
                     (need_of need cmp days) j < 0
                then sh @ [(days ! j, cmp, render_fgs (fgm (cmp, days ! j)))] else sh)"
proof (cases j)
  case 0
  then show ?thesis
    by (simp add: day_step_def need_of_def Let_def)
next
  case (Suc k)
  with assms(1,2) have k: "k < length idx" by simp
  then have "idx ! k \<in> set idx" by simp
  with assms(3) have t: "0 \<le> idx ! k - 1" "idx ! k - 1 < int (length row)" by auto
  have i1: "py_index ''list index out of range'' idx (int k) = Inr (idx ! k)"
    using k by (simp add: py_index_def)
  have i2: "py_index ''tuple index out of range'' row (idx ! k - 1) = Inr (row ! nat (idx ! k - 1))"
    using t by (rule py_index_in_range)
  show ?thesis
    using Suc by (simp add: day_step_def i1 i2 need_of_def Let_def)
qed

lemma day_loop:
  assumes "length days \<le> Suc (length idx)"
    and "\<forall>t\<in>set idx. 1 \<le> t \<and> t \<le> int (length row)"
    and "xs = drop j days" and "j \<le> length days"
  shows "for_each (day_step L need fgm row idx cmp) (enumerate j xs)
           (if j = 0 then b0
            else balance_spec b0 (\<lambda>k. safe_float L (row ! nat (idx ! k - 1)))
                   (need_of need cmp days) (j - 1), sh)
         = Inr (if length days = 0 then b0
                else balance_spec b0 (\<lambda>k. safe_float L (row ! nat (idx ! k - 1)))
                   (need_of need cmp days) (length days - 1),
                sh @ map (\<lambda>i. (days ! i, cmp, render_fgs (fgm (cmp, days ! i))))
                       (filter (\<lambda>i. balance_spec b0 (\<lambda>k. safe_float L (row ! nat (idx ! k - 1)))
                                      (need_of need cmp days) i < 0) [j ..< length days]))"
  using assms(3,4)
proof (induction xs arbitrary: j sh)
  case Nil
  then have "j = length days" by simp
  then show ?case by simp
next
  case (Cons x xs)
  from Cons.prems have j: "j < length days"
    by (metis drop_all leI list.distinct(1))
  with Cons.prems have x: "x = days ! j" and xs: "xs = drop (Suc j) days"
    by (metis Cons_nth_drop_Suc list.inject)+
  have upt: "[j ..< length days] = j # [Suc j ..< length days]"
    using j by (simp add: upt_conv_Cons)
  show ?case
    unfolding enumerate_simps for_each.simps x day_step_ok [OF j assms(1,2)]
    using Cons.IH [OF xs, of "if balance_spec b0 (\<lambda>k. safe_float L (row ! nat (idx ! k - 1)))
                     (need_of need cmp days) j < 0
                then sh @ [(days ! j, cmp, render_fgs (fgm (cmp, days ! j)))] else sh"] j
    by (simp add: upt del: upt_Suc)
qed

lemma cov_row_blank:
  "1 \<le> length row \<Longrightarrow> clean_comp L (row ! 0) = [] \<Longrightarrow> cov_row L need fgm days idx row sh = Inr sh"
  by (auto simp add: cov_row_def py_index_def)

lemma balance_spec_cong:
  "(\<And>k. k < i \<Longrightarrow> t k = t' k) \<Longrightarrow> balance_spec b0 t nd i = balance_spec b0 t' nd i"
  by (induction i) simp_all

lemma shortages_spec_cong:
  assumes "\<And>i. i < length days \<Longrightarrow> bal i = bal' i"
  shows "shortages_spec fgm days cmp bal = shortages_spec fgm days cmp bal'"
proof -
  have "filter (\<lambda>i. bal i < 0) [0 ..< length days] = filter (\<lambda>i. bal' i < 0) [0 ..< length days]"
    by (rule filter_cong) (simp_all add: assms)
  then show ?thesis by (simp add: shortages_spec_def)
qed

lemma length_row_values: "length (row_values ws n r) = nat (3 + 3 * n)"
  by (simp add: row_values_def)

lemma nth_row_values:
  "k < nat (3 + 3 * n) \<Longrightarrow> row_values ws n r ! k = cellv ws r (Suc k)"
  by (simp add: row_values_def del: upt_Suc)

lemma length_idx_transit: "length (idx_transit n) = nat n"
  by (simp add: idx_transit_def)

lemma nth_idx_transit: "k < nat n \<Longrightarrow> idx_transit n ! k = 4 + n + int k"
  by (simp add: idx_transit_def)

lemma idx_transit_range: "\<forall>t\<in>set (idx_transit n). 1 \<le> t \<and> t \<le> int (nat (3 + 3 * n))"
  by (auto simp add: idx_transit_def)

lemma find_None_iff': "find P xs = None \<longleftrightarrow> (\<forall>x\<in>set xs. \<not> P x)"
  by (induction xs) auto

lemma to_date_example': "map (to_date example_lib) ds = ds"
  by (simp add: example_lib_def)

lemma reconcile_no_header:
  "find_component_header L ws = None \<Longrightarrow>
     reconcile L need ds ws = Inl no_component_header \<and> error_message no_component_header \<noteq> ''''"
  by (simp add: reconcile_def no_component_header_def)

lemma cov_row_spec:
  assumes "3 \<le> length row" and "clean_comp L (row ! 0) \<noteq> []"
    and "length days \<le> Suc (length idx)"
    and "\<forall>t\<in>set idx. 1 \<le> t \<and> t \<le> int (length row)"
  shows "cov_row L need fgm days idx row sh =
     Inr (sh @ shortages_spec fgm days (clean_comp L (row ! 0))
            (balance_spec (safe_float L (row ! 1) + safe_float L (row ! 2))
               (\<lambda>k. safe_float L (row ! nat (idx ! k - 1)))
               (need_of need (clean_comp L (row ! 0)) days)))"
proof -
  have idx: "py_index ''tuple index out of range'' row 0 = Inr (row ! 0)"
    "py_index ''tuple index out of range'' row 1 = Inr (row ! 1)"
    "py_index ''tuple index out of range'' row 2 = Inr (row ! 2)"
    using assms(1) by (auto simp add: py_index_def)
  show ?thesis
    unfolding cov_row_def idx Let_def shortages_spec_def
    using assms(2)
      day_loop [OF assms(3,4), of days 0 L need fgm "clean_comp L (row ! 0)"
         "safe_float L (row ! 1) + safe_float L (row ! 2)" sh]
    by simp
qed

lemma for_each_append:
  "for_each body (xs @ ys) s =
     (case for_each body xs s of Inl e \<Rightarrow> Inl e | Inr s' \<Rightarrow> for_each body ys s')"
  by (induction xs arbitrary: s) (simp_all split: sum.splits)

lemma day_step_overrun:
  assumes "length idx < j"
  shows "day_step L need fgm row idx cmp (j, d) st = Inl (IndexError ''list index out of range'')"
proof -
  from assms have "py_index ''list index out of range'' idx (int j - 1)
      = Inl (IndexError ''list index out of range'')"
    by (simp add: py_index_def)
  with assms show ?thesis
    by (simp add: day_step_def)
qed

lemma cov_row_overrun:
  assumes "3 \<le> length row" and "clean_comp L (row ! 0) \<noteq> []"
    and "Suc (length idx) < length days"
    and "\<forall>t\<in>set idx. 1 \<le> t \<and> t \<le> int (length row)"
  shows "cov_row L need fgm days idx row sh = Inl (IndexError ''list index out of range'')"
proof -
  let ?m = "Suc (length idx)"
  let ?xs = "take ?m days"
  let ?body = "day_step L need fgm row idx (clean_comp L (row ! 0))"
  let ?b0 = "safe_float L (row ! 1) + safe_float L (row ! 2)"
  have len: "length ?xs = ?m"
    using assms(3) by simp
  have split: "days = ?xs @ days ! ?m # drop (Suc ?m) days"
    using assms(3) by (rule id_take_nth_drop)
  have "enumerate 0 days = enumerate 0 (?xs @ days ! ?m # drop (Suc ?m) days)"
    using split by simp
  also have "\<dots> = enumerate 0 ?xs @ (?m, days ! ?m) # enumerate (Suc ?m) (drop (Suc ?m) days)"
    unfolding enumerate_append_eq len by simp
  finally have enum: "enumerate 0 days
      = enumerate 0 ?xs @ (?m, days ! ?m) # enumerate (Suc ?m) (drop (Suc ?m) days)" .
  have short: "length ?xs \<le> Suc (length idx)"
    using len by simp
  obtain st where first: "for_each ?body (enumerate 0 ?xs) (?b0, sh) = Inr st"
    using day_loop [OF short assms(4), of ?xs 0 L need fgm "clean_comp L (row ! 0)" ?b0 sh]
    by simp
  have "length idx < ?m" by simp
  then have "?body (?m, days ! ?m) st = Inl (IndexError ''list index out of range'')"
    by (rule day_step_overrun)
  then have loop: "for_each ?body (enumerate 0 days) (?b0, sh)
      = Inl (IndexError ''list index out of range'')"
    unfolding enum for_each_append first by simp
  have idx: "py_index ''tuple index out of range'' row 0 = Inr (row ! 0)"
    "py_index ''tuple index out of range'' row 1 = Inr (row ! 1)"
    "py_index ''tuple index out of range'' row 2 = Inr (row ! 2)"
    using assms(1) by (auto simp add: py_index_def)
  show ?thesis
    unfolding cov_row_def idx Let_def
    using assms(2) loop by simp
qed

lemma cov_row_columns:
  assumes "0 \<le> n_days ws" and "int (length ds) \<le> n_days ws + 1"
    and "clean_comp L (cellv ws r 1) \<noteq> []"
  shows "cov_row L need fgm (map (to_date L) ds) (idx_transit (n_days ws))
           (row_values ws (n_days ws) r) sh =
     Inr (sh @ shortages_spec fgm (map (to_date L) ds) (clean_comp L (cellv ws r 1))
            (balance_spec (safe_float L (cellv ws r 2) + safe_float L (cellv ws r 3))
               (\<lambda>k. safe_float L (cellv ws r (3 + nat (n_days ws) + (k + 1))))
               (need_of need (clean_comp L (cellv ws r 1)) (map (to_date L) ds))))"
proof -
  let ?n = "n_days ws"
  let ?row = "row_values ws ?n r"
  let ?idx = "idx_transit ?n"
  let ?days = "map (to_date L) ds"
  have len: "3 \<le> length ?row"
    using assms(1) by (simp add: length_row_values)
  have cells: "?row ! 0 = cellv ws r 1" "?row ! 1 = cellv ws r 2" "?row ! 2 = cellv ws r 3"
    using assms(1) by (simp_all add: nth_row_values numeral_2_eq_2 numeral_3_eq_3)
  have days: "length ?days \<le> Suc (length ?idx)"
    using assms(1,2) by (simp add: length_idx_transit)
  have range: "\<forall>t\<in>set ?idx. 1 \<le> t \<and> t \<le> int (length ?row)"
    unfolding length_row_values by (rule idx_transit_range)
  have transit: "safe_float L (?row ! nat (?idx ! k - 1))
      = safe_float L (cellv ws r (3 + nat ?n + (k + 1)))" if "k < nat ?n" for k
  proof -
    have "nat (?idx ! k - 1) = 3 + nat ?n + k"
      using that by (simp add: nth_idx_transit)
    moreover have "3 + nat ?n + k < nat (3 + 3 * ?n)"
      using that by simp
    ultimately show ?thesis
      by (simp add: nth_row_values)
  qed
  have bal: "balance_spec b0 (\<lambda>k. safe_float L (?row ! nat (?idx ! k - 1))) nd i
      = balance_spec b0 (\<lambda>k. safe_float L (cellv ws r (3 + nat ?n + (k + 1)))) nd i"
    if "i < length ?days" for i b0 nd
  proof (rule balance_spec_cong)
    fix k assume "k < i"
    with that assms(2) have "k < nat ?n" by simp
    then show "safe_float L (?row ! nat (?idx ! k - 1))
      = safe_float L (cellv ws r (3 + nat ?n + (k + 1)))" by (rule transit)
  qed
  have ne: "clean_comp L (?row ! 0) \<noteq> []"
    unfolding cells by (rule assms(3))
  have eq: "shortages_spec fgm ?days c
        (balance_spec b0 (\<lambda>k. safe_float L (?row ! nat (?idx ! k - 1))) nd)
      = shortages_spec fgm ?days c
        (balance_spec b0 (\<lambda>k. safe_float L (cellv ws r (3 + nat ?n + (k + 1)))) nd)"
    for c b0 nd
    by (rule shortages_spec_cong) (rule bal)
  show ?thesis
    using cov_row_spec [OF len ne days range, of need fgm sh]
    unfolding cells eq .
qed

subsection \<open>The coverage simulation: claims\<close>

text \<open>
  C2 (as amended). In a coverage sheet of at least three columns, with
  \<open>n = (max_column - 3) div 3\<close>: a coverage row whose normalised component label is empty
  adds no shortage. For every other row, when there are at most \<open>n + 1\<close> plan dates, the
  simulator appends exactly one shortage for every day index \<open>i\<close> whose balance is
  negative, in the order of the days, where the balance follows the recurrence: it starts
  from stock plus work in progress (columns 2 and 3), takes in the intransit figure
  \<open>i - 1\<close> (column \<open>3 + n + i\<close>) for \<open>i > 0\<close>, then loses the need of day \<open>i\<close> (0 when the
  lookup has no entry), and is carried to the next day as it is, negative or not. When
  there are more than \<open>n + 1\<close> plan dates, such a row ends the simulation with an
  \<^verbatim>\<open>IndexError\<close>, and no shortage is returned.

  As stated, for every coverage row, the claim fails on a row whose label is blank: the
  guard \<^verbatim>\<open>if not comp: continue\<close> skips it, whatever its balance.
\<close>

theorem cov_row_shortages:
  assumes "0 \<le> n_days ws"
  shows "cov_row L need fgm (map (to_date L) ds) (idx_transit (n_days ws))
           (row_values ws (n_days ws) r) sh =
     (if clean_comp L (cellv ws r 1) = [] then Inr sh
      else if int (length ds) \<le> n_days ws + 1
      then Inr (sh @ shortages_spec fgm (map (to_date L) ds) (clean_comp L (cellv ws r 1))
             (balance_spec (safe_float L (cellv ws r 2) + safe_float L (cellv ws r 3))
                (\<lambda>k. safe_float L (cellv ws r (3 + nat (n_days ws) + (k + 1))))
                (need_of need (clean_comp L (cellv ws r 1)) (map (to_date L) ds))))
      else Inl (IndexError ''list index out of range''))"
proof -
  let ?n = "n_days ws"
  let ?row = "row_values ws ?n r"
  let ?idx = "idx_transit ?n"
  have len: "3 \<le> length ?row"
    using assms by (simp add: length_row_values)
  have label: "?row ! 0 = cellv ws r 1"
    using assms by (simp add: nth_row_values)
  have range: "\<forall>t\<in>set ?idx. 1 \<le> t \<and> t \<le> int (length ?row)"
    unfolding length_row_values by (rule idx_transit_range)
  show ?thesis
  proof (cases "clean_comp L (cellv ws r 1) = []")
    case True
    then have "clean_comp L (?row ! 0) = []" unfolding label .
    moreover from len have "1 \<le> length ?row" by simp
    ultimately have "cov_row L need fgm (map (to_date L) ds) ?idx ?row sh = Inr sh"
      by (rule cov_row_blank [rotated])
    with True show ?thesis by simp
  next
    case False
    show ?thesis
    proof (cases "int (length ds) \<le> ?n + 1")
      case True
      from cov_row_columns [OF assms True False] \<open>clean_comp L (cellv ws r 1) \<noteq> []\<close> True
      show ?thesis by simp
    next
      case over: False
      have ne: "clean_comp L (?row ! 0) \<noteq> []" unfolding label by (rule False)
      have many: "Suc (length ?idx) < length (map (to_date L) ds)"
        using over assms by (simp add: length_idx_transit)
      from cov_row_overrun [OF len ne many range] False over
      show ?thesis by simp
    qed
  qed
qed

theorem cov_row_shortages_witness:
  "cov_row example_lib (need_10 (PStr ''C1'')) (\<lambda>k. {}) [1, 2] (idx_transit (n_days cov9_carry))
       (row_values cov9_carry (n_days cov9_carry) 2) []
     = Inr [(1, ''C1'', placeholder), (2, ''C1'', placeholder)]
   \<and> cov_row example_lib (need_10 (PStr ''C1'')) (\<lambda>k. {}) [1, 2, 3, 4] (idx_transit (n_days cov11))
       (row_values cov11 (n_days cov11) 2) []
     = Inl (IndexError ''list index out of range'')"
proof -
  have h1: "0 \<le> n_days cov9_carry" by code_simp
  have c1: "clean_comp example_lib (cellv cov9_carry 2 1) \<noteq> []" by code_simp
  have d1: "int (length [1::nat, 2]) \<le> n_days cov9_carry + 1" by code_simp
  have spec: "shortages_spec (\<lambda>k. {}) [1, 2] (clean_comp example_lib (cellv cov9_carry 2 1))
      (balance_spec (safe_float example_lib (cellv cov9_carry 2 2)
                     + safe_float example_lib (cellv cov9_carry 2 3))
         (\<lambda>k. safe_float example_lib (cellv cov9_carry 2 (3 + nat (n_days cov9_carry) + (k + 1))))
         (need_of (need_10 (PStr ''C1'')) (clean_comp example_lib (cellv cov9_carry 2 1)) [1, 2]))
      = [(1, ''C1'', placeholder), (2, ''C1'', placeholder)]"
    by code_simp
  have h2: "0 \<le> n_days cov11" by code_simp
  have c2: "clean_comp example_lib (cellv cov11 2 1) \<noteq> []" by code_simp
  have d2: "\<not> int (length [1::nat, 2, 3, 4]) \<le> n_days cov11 + 1" by code_simp
  have first: "cov_row example_lib (need_10 (PStr ''C1'')) (\<lambda>k. {}) [1, 2]
       (idx_transit (n_days cov9_carry)) (row_values cov9_carry (n_days cov9_carry) 2) []
     = Inr [(1, ''C1'', placeholder), (2, ''C1'', placeholder)]"
    using cov_row_shortages [OF h1, of example_lib "need_10 (PStr ''C1'')" "\<lambda>k. {}" "[1, 2]" 2 "[]"]
      c1 d1
    unfolding to_date_example' spec by simp
  have second: "cov_row example_lib (need_10 (PStr ''C1'')) (\<lambda>k. {}) [1, 2, 3, 4]
       (idx_transit (n_days cov11)) (row_values cov11 (n_days cov11) 2) []
     = Inl (IndexError ''list index out of range'')"
    using cov_row_shortages [OF h2, of example_lib "need_10 (PStr ''C1'')" "\<lambda>k. {}" "[1, 2, 3, 4]" 2 "[]"]
      c2 d2
    unfolding to_date_example' by simp
  from first second show ?thesis by (rule conjI)
qed

theorem cov_row_blank_counterexample:
  "cov_row example_lib (need_10 (PStr ''C1'')) (\<lambda>k. {}) [1] [] [PStr '' '', PInt (- 1), PInt 0] []
     = Inr []
   \<and> shortages_spec (\<lambda>k. {}) [1] (clean_comp example_lib (PStr '' ''))
        (balance_spec (safe_float example_lib (PInt (- 1)) + safe_float example_lib (PInt 0))
           (\<lambda>k. 0) (need_of (need_10 (PStr ''C1'')) (clean_comp example_lib (PStr '' '')) [1]))
     = [(1, '''', placeholder)]"
  by code_simp

text \<open>
  C5 (as amended). With \<open>n = (max_column - 3) div 3\<close> (at least 0, and at least the number of
  plan dates less one), the balance of day \<open>i > 0\<close> takes in the value of column
  \<open>3 + n + i\<close> of the coverage row. That is column \<open>3 + N + i\<close> when \<open>n\<close> is the number \<open>N\<close>
  of plan dates: in a sheet of three leading columns and three blocks of \<open>N\<close> columns.

  As stated, for the layout of three leading columns and two blocks of \<open>N\<close> columns, the
  claim fails: there \<open>n = 2 N div 3\<close>, and with \<open>N = 2\<close> the simulator reads column 5, a
  need column, where the claim says column 6.
\<close>

theorem cov_row_transit_columns:
  assumes "0 \<le> n_days ws" and "int (length ds) \<le> n_days ws + 1"
    and "clean_comp L (cellv ws r 1) \<noteq> []"
  shows "cov_row L need fgm (map (to_date L) ds) (idx_transit (n_days ws))
           (row_values ws (n_days ws) r) sh =
     Inr (sh @ shortages_spec fgm (map (to_date L) ds) (clean_comp L (cellv ws r 1))
            (balance_spec (safe_float L (cellv ws r 2) + safe_float L (cellv ws r 3))
               (\<lambda>k. safe_float L (cellv ws r (3 + nat (n_days ws) + (k + 1))))
               (need_of need (clean_comp L (cellv ws r 1)) (map (to_date L) ds))))"
  using assms by (rule cov_row_columns)

theorem cov_row_transit_columns_witness:
  "cov_row example_lib (need_10 (PStr ''C1'')) (\<lambda>k. {}) [1, 2] (idx_transit (n_days cov9))
       (row_values cov9 (n_days cov9) 2) []
     = Inr [(1, ''C1'', placeholder)]"
proof -
  have h1: "0 \<le> n_days cov9" by code_simp
  have h2: "int (length [1::nat, 2]) \<le> n_days cov9 + 1" by code_simp
  have h3: "clean_comp example_lib (cellv cov9 2 1) \<noteq> []" by code_simp
  have spec: "shortages_spec (\<lambda>k. {}) [1, 2] (clean_comp example_lib (cellv cov9 2 1))
      (balance_spec (safe_float example_lib (cellv cov9 2 2) + safe_float example_lib (cellv cov9 2 3))
         (\<lambda>k. safe_float example_lib (cellv cov9 2 (3 + nat (n_days cov9) + (k + 1))))
         (need_of (need_10 (PStr ''C1'')) (clean_comp example_lib (cellv cov9 2 1)) [1, 2]))
      = [(1, ''C1'', placeholder)]"
    by code_simp
  show ?thesis
    using cov_row_transit_columns [OF h1 h2 h3, of "need_10 (PStr ''C1'')" "\<lambda>k. {}" "[]"]
    unfolding to_date_example' spec by simp
qed

theorem cov_row_two_block_counterexample:
  "cov_row example_lib (need_10 (PStr ''C1'')) (\<lambda>k. {}) [1, 2] (idx_transit (n_days cov7))
       (row_values cov7 (n_days cov7) 2) []
     = Inr [(1, ''C1'', placeholder), (2, ''C1'', placeholder)]
   \<and> shortages_spec (\<lambda>k. {}) [1, 2] (clean_comp example_lib (cellv cov7 2 1))
        (balance_spec (safe_float example_lib (cellv cov7 2 2) + safe_float example_lib (cellv cov7 2 3))
           (\<lambda>k. safe_float example_lib (cellv cov7 2 (3 + length [1::nat, 2] + (k + 1))))
           (need_of (need_10 (PStr ''C1'')) (clean_comp example_lib (cellv cov7 2 1)) [1, 2]))
     = [(1, ''C1'', placeholder)]"
  by code_simp

text \<open>
  C7. When no row of the coverage sheet has \<^verbatim>\<open>APN\<close> in its first cell, the stage ends
  with \<^verbatim>\<open>StopIteration\<close>, whose message is empty: the user sees no description of what
  failed. (The ledger's header search, next to it, raises a \<^verbatim>\<open>ValueError\<close> that names
  the sheet: \<open>reconcile_no_header\<close>.)
\<close>

theorem simulate_no_apn:
  assumes "\<forall>r. 1 \<le> r \<and> r \<le> max_row ws \<longrightarrow> cellv ws r 1 \<noteq> PStr ''APN''"
  shows "simulate L need fgm ds ws = Inl StopIteration \<and> error_message StopIteration = ''''"
proof -
  have "find_apn ws = None"
    unfolding find_apn_def find_None_iff' using assms by auto
  then show ?thesis by (simp add: simulate_def)
qed

theorem simulate_no_apn_witness:
  "simulate example_lib (need_10 (PStr ''C1'')) (\<lambda>k. {}) [1] cov_no_apn = Inl StopIteration
   \<and> error_message StopIteration = ''''"
proof -
  have "cellv cov_no_apn r 1 \<noteq> PStr ''APN''" if "1 \<le> r \<and> r \<le> max_row cov_no_apn" for r
  proof -
    from that have "r = 1 \<or> r = 2" by (auto simp add: cov_no_apn_def sheet_of_rows_def)
    then show ?thesis by (auto simp add: cov_no_apn_def sheet_of_rows_def)
  qed
  then have "\<forall>r. 1 \<le> r \<and> r \<le> max_row cov_no_apn \<longrightarrow> cellv cov_no_apn r 1 \<noteq> PStr ''APN''"
    by blast
  from simulate_no_apn [OF this] show ?thesis .
qed

subsection \<open>The explosion\<close>

lemma keys_filter_neq:
  "k' \<in> fst ` {x \<in> set xs. fst x \<noteq> k} \<longleftrightarrow> k' \<noteq> k \<and> k' \<in> fst ` set xs"
  by force

lemma groupby_sum_one_row:
  "length (filter (\<lambda>r. fst r = k) (groupby_sum xs)) = (if k \<in> fst ` set xs then 1 else 0)"
proof (induction xs rule: groupby_sum.induct)
  case 1
  then show ?case by simp
next
  case (2 k0 v xs)
  then show ?case
    by (cases "k = k0") (simp_all add: keys_filter_neq)
qed

lemma filter_eq_filter_neq:
  "k \<noteq> k0 \<Longrightarrow>
     filter (\<lambda>x. fst x \<noteq> k0 \<and> fst x = k) xs = filter (\<lambda>r. fst r = k) xs"
  by (induction xs) auto

lemma groupby_sum_member:
  "(k, v) \<in> set (groupby_sum xs) \<longleftrightarrow>
     k \<in> fst ` set xs \<and> v = sum_list (map snd (filter (\<lambda>r. fst r = k) xs))"
proof (induction xs rule: groupby_sum.induct)
  case 1
  then show ?case by simp
next
  case (2 k0 v0 xs)
  show ?case
  proof (cases "k = k0")
    case True
    with 2 show ?thesis
      by (auto simp add: keys_filter_neq)
  next
    case False
    then show ?thesis
      by (simp add: 2 keys_filter_neq filter_eq_filter_neq)
  qed
qed


lemma sum_list_concat_map:
  "sum_list (concat (map f xs)) = sum_list (map (\<lambda>x. sum_list (f x)) xs)"
  by (induction xs) simp_all

lemma merged_key_sum_row:
  "sum_list (map snd (filter (\<lambda>r. fst r = (c, d))
       (map (\<lambda>r. ((Component r, Date r), TotalNeed r))
          (map (join_row b) (filter (\<lambda>p. pFG p = bFG b) (dropna plan))))))
   = (if bComponent b = c
      then sum_list (map (\<lambda>p. bCompQty b * the (pQtyPlanned p))
             (filter (\<lambda>p. pFG p = bFG b \<and> pDate p = d \<and> pQtyPlanned p \<noteq> None) plan))
      else 0)"
  by (induction plan) (auto simp add: dropna_def join_row_def)

lemma merged_key_sum:
  "sum_list (map snd (filter (\<lambda>r. fst r = (c, d))
       (map (\<lambda>r. ((Component r, Date r), TotalNeed r)) (merged bom (dropna plan)))))
   = total_need_spec bom plan c d"
proof (induction bom)
  case Nil
  then show ?case by (simp add: merged_def total_need_spec_def)
next
  case (Cons b bom)
  have "merged (b # bom) (dropna plan)
      = map (join_row b) (filter (\<lambda>p. pFG p = bFG b) (dropna plan)) @ merged bom (dropna plan)"
    by (simp add: merged_def)
  then show ?case
    using Cons merged_key_sum_row [of c d b plan]
    by (simp add: total_need_spec_def)
qed

lemma merged_keys:
  "(c, d) \<in> (\<lambda>r. (Component r, Date r)) ` set (merged bom pl) \<longleftrightarrow>
     (\<exists>b\<in>set bom. \<exists>p\<in>set pl. pFG p = bFG b \<and> bComponent b = c \<and> pDate p = d)"
  by (auto simp add: merged_def join_row_def image_iff)

lemma explode_member:
  "((c, d), v) \<in> set (explode bom plan) \<longleftrightarrow>
     (c, d) \<in> (\<lambda>r. (Component r, Date r)) ` set (merged bom (dropna plan))
     \<and> v = total_need_spec bom plan c d"
  by (simp add: explode_def tot_need_df_def groupby_sum_member merged_key_sum image_image)

lemma total_need_spec_zero_row:
  assumes "pQtyPlanned z = Some 0"
  shows "total_need_spec bom (xs @ z # ys) c d = total_need_spec bom (xs @ ys) c d"
  using assms by (induction bom) (simp_all add: total_need_spec_def)

lemma total_need_spec_no_key:
  assumes "(c, d) \<notin> (\<lambda>r. (Component r, Date r)) ` set (merged bom (dropna plan))"
  shows "total_need_spec bom plan c d = 0"
proof -
  have "filter (\<lambda>r. fst r = (c, d))
       (map (\<lambda>r. ((Component r, Date r), TotalNeed r)) (merged bom (dropna plan))) = []"
    using assms by (auto simp add: filter_empty_conv)
  then show ?thesis
    unfolding merged_key_sum [symmetric] by simp
qed

lemma merged_keys_zero_row:
  assumes "(c, d) \<in> (\<lambda>r. (Component r, Date r)) ` set (merged bom (dropna (xs @ ys)))"
  shows "(c, d) \<in> (\<lambda>r. (Component r, Date r)) ` set (merged bom (dropna (xs @ z # ys)))"
  using assms unfolding merged_keys by (auto simp add: dropna_def)

text \<open>
  C1. For every component and date that appear in the inner join of the BOM and the plan
  on the finished good, the explosion has exactly one row, and the total need of every
  row of the explosion is the sum, over the pairs of a BOM entry of the component and a
  plan row of the date (with a quantity) for the same finished good, of the quantity per
  unit times the planned quantity. A plan row with quantity 0, added anywhere in the
  plan, changes no row of the explosion; a row it adds has total need 0.
\<close>

theorem explode_additive:
  "((c, d) \<in> (\<lambda>r. (Component r, Date r)) ` set (merged bom (dropna plan))
      \<longrightarrow> length (filter (\<lambda>r. fst r = (c, d)) (explode bom plan)) = 1
          \<and> ((c, d), total_need_spec bom plan c d) \<in> set (explode bom plan))
   \<and> (\<forall>v. ((c, d), v) \<in> set (explode bom plan) \<longrightarrow> v = total_need_spec bom plan c d)
   \<and> (pQtyPlanned z = Some 0 \<longrightarrow>
        (\<forall>k v. (k, v) \<in> set (explode bom (xs @ ys)) \<longrightarrow> (k, v) \<in> set (explode bom (xs @ z # ys)))
        \<and> (\<forall>k v. (k, v) \<in> set (explode bom (xs @ z # ys)) \<longrightarrow>
               (k, v) \<in> set (explode bom (xs @ ys)) \<or> v = 0))"
proof (intro conjI impI allI)
  assume "(c, d) \<in> (\<lambda>r. (Component r, Date r)) ` set (merged bom (dropna plan))"
  then show "length (filter (\<lambda>r. fst r = (c, d)) (explode bom plan)) = 1"
    by (simp add: explode_def tot_need_df_def groupby_sum_one_row image_image)
next
  assume "(c, d) \<in> (\<lambda>r. (Component r, Date r)) ` set (merged bom (dropna plan))"
  then show "((c, d), total_need_spec bom plan c d) \<in> set (explode bom plan)"
    by (simp add: explode_member)
next
  fix v assume "((c, d), v) \<in> set (explode bom plan)"
  then show "v = total_need_spec bom plan c d"
    by (simp add: explode_member)
next
  fix k v
  assume z: "pQtyPlanned z = Some 0" and kv: "(k, v) \<in> set (explode bom (xs @ ys))"
  obtain c' d' where k: "k = (c', d')" by (cases k)
  from kv have old: "(c', d') \<in> (\<lambda>r. (Component r, Date r)) ` set (merged bom (dropna (xs @ ys)))"
    and v: "v = total_need_spec bom (xs @ ys) c' d'"
    unfolding k explode_member by simp_all
  from old have "(c', d') \<in> (\<lambda>r. (Component r, Date r)) ` set (merged bom (dropna (xs @ z # ys)))"
    by (rule merged_keys_zero_row)
  with v show "(k, v) \<in> set (explode bom (xs @ z # ys))"
    unfolding k explode_member total_need_spec_zero_row [OF z] by simp
next
  fix k v
  assume z: "pQtyPlanned z = Some 0" and kv: "(k, v) \<in> set (explode bom (xs @ z # ys))"
  obtain c' d' where k: "k = (c', d')" by (cases k)
  from kv have v: "v = total_need_spec bom (xs @ ys) c' d'"
    unfolding k explode_member total_need_spec_zero_row [OF z] by simp
  show "(k, v) \<in> set (explode bom (xs @ ys)) \<or> v = 0"
  proof (cases "(c', d') \<in> (\<lambda>r. (Component r, Date r)) ` set (merged bom (dropna (xs @ ys)))")
    case True
    with v show ?thesis unfolding k explode_member by simp
  next
    case False
    from total_need_spec_no_key [OF this] v show ?thesis by simp
  qed
qed

theorem explode_additive_witness:
  "length (filter (\<lambda>r. fst r = (PStr ''C1'', 1)) (explode bom_ex plan_ex)) = 1
   \<and> ((PStr ''C1'', 1), 10) \<in> set (explode bom_ex plan_ex)
   \<and> ((PStr ''C1'', 1), 10) \<in> set (explode bom_ex (take 1 plan_ex))"
proof -
  have key: "(PStr ''C1'', 1::nat) \<in> (\<lambda>r. (Component r, Date r)) ` set (merged bom_ex (dropna plan_ex))"
    by code_simp
  have total: "total_need_spec bom_ex plan_ex (PStr ''C1'') (1::nat) = 10"
    by code_simp
  have one: "((PStr ''C1'', 1), 10) \<in> set (explode bom_ex (take 1 plan_ex))"
    by code_simp
  from explode_additive [of "PStr ''C1''" 1 bom_ex plan_ex] key one
  show ?thesis unfolding total by blast
qed

subsection \<open>The causes of a shortage\<close>

lemma fold_fg_add:
  "fold (fg_add L) m f0 key =
     f0 key \<union> {py_str L (FG r) | r. r \<in> set m
                   \<and> (clean_comp L (Component r), to_date L (Date r)) = key}"
proof (induction m arbitrary: f0)
  case Nil
  then show ?case by simp
next
  case (Cons r m)
  show ?case
    unfolding fold_simps Cons
    by (auto simp add: fg_add_def Let_def)
qed

lemma fg_map_rows:
  "fg_map L m key = {py_str L (FG r) | r. r \<in> set m
                       \<and> (clean_comp L (Component r), to_date L (Date r)) = key}"
  by (simp add: fg_map_def fold_fg_add)

lemma set_merged:
  "set (merged bom pl) = {join_row b p | b p. b \<in> set bom \<and> p \<in> set pl \<and> pFG p = bFG b}"
  by (auto simp add: merged_def)

lemma fg_map_merged:
  "fg_map L (merged bom (dropna plan)) (c, d) = causing_fgs L bom plan c d"
proof -
  have "fg_map L (merged bom (dropna plan)) (c, d)
      = {py_str L (bFG b) | b p. b \<in> set bom \<and> p \<in> set plan \<and> pQtyPlanned p \<noteq> None
           \<and> pFG p = bFG b \<and> clean_comp L (bComponent b) = c \<and> to_date L (pDate p) = d}"
    unfolding fg_map_rows set_merged
    by (auto simp add: join_row_def dropna_def) (metis merged_row.select_convs(1,2,4))+
  also have "\<dots> = causing_fgs L bom plan c d"
    by (auto simp add: causing_fgs_def)
  finally show ?thesis .
qed

lemma render_fgs_finite:
  assumes "finite S"
  shows "render_fgs S =
     (if S = {} then placeholder else join_with '', '' (sorted_list_of_set S))"
proof -
  have "sorted_list_of_set S = [] \<longleftrightarrow> S = {}"
    using assms by (simp add: sorted_list_of_set_eq_Nil_iff)
  then show ?thesis
    by (simp add: render_fgs_def Let_def)
qed

lemma day_step_caused:
  assumes "day_step L need fgm row idx cmp iday st = Inr st'"
    and "\<forall>s\<in>set (snd st). snd (snd s) = render_fgs (fgm (fst (snd s), fst s))"
  shows "\<forall>s\<in>set (snd st'). snd (snd s) = render_fgs (fgm (fst (snd s), fst s))"
proof -
  from assms(1) obtain prev where
    st': "st' = (prev - (case need (cmp, snd iday) of None \<Rightarrow> 0 | Some v \<Rightarrow> v),
                 if prev - (case need (cmp, snd iday) of None \<Rightarrow> 0 | Some v \<Rightarrow> v) < 0
                 then snd st @ [(snd iday, cmp, render_fgs (fgm (cmp, snd iday)))]
                 else snd st)"
    unfolding day_step_def Let_def
    by (auto split: sum.splits)
  show ?thesis
    unfolding st' using assms(2) by auto
qed

lemma for_each_invariant:
  assumes "for_each body xs s = Inr s'" and "P s"
    and "\<And>x t t'. body x t = Inr t' \<Longrightarrow> P t \<Longrightarrow> P t'"
  shows "P s'"
  using assms(1,2)
proof (induction xs arbitrary: s)
  case Nil
  then show ?case by simp
next
  case (Cons x xs)
  from Cons.prems(1) obtain t where t: "body x s = Inr t" and rest: "for_each body xs t = Inr s'"
    by (auto split: sum.splits)
  from assms(3) [OF t Cons.prems(2)] have "P t" .
  from Cons.IH [OF rest this] show ?case .
qed

lemma cov_row_caused:
  assumes "cov_row L need fgm days idx row sh = Inr sh'"
    and "\<forall>s\<in>set sh. snd (snd s) = render_fgs (fgm (fst (snd s), fst s))"
  shows "\<forall>s\<in>set sh'. snd (snd s) = render_fgs (fgm (fst (snd s), fst s))"
proof (cases "sh' = sh")
  case True
  with assms(2) show ?thesis by simp
next
  case False
  with assms(1) obtain x0 x1 x2 st where
    loop: "for_each (day_step L need fgm row idx (clean_comp L x0)) (enumerate 0 days)
             (safe_float L x1 + safe_float L x2, sh) = Inr st"
    and sh': "sh' = snd st"
    unfolding cov_row_def Let_def
    by (auto split: sum.splits if_splits)
  have "\<forall>s\<in>set (snd st). snd (snd s) = render_fgs (fgm (fst (snd s), fst s))"
    by (rule for_each_invariant [OF loop, where P = "\<lambda>st. \<forall>s\<in>set (snd st).
          snd (snd s) = render_fgs (fgm (fst (snd s), fst s))"])
       (use assms(2) in simp, rule day_step_caused)
  then show ?thesis unfolding sh' .
qed

lemma simulate_caused:
  assumes "simulate L need fgm ds ws = Inr out" and "(d, c, f) \<in> set out"
  shows "f = render_fgs (fgm (c, d))"
proof -
  from assms(1) obtain hdr sh where
    loop: "for_each (\<lambda>r. cov_row L need fgm (map (to_date L) ds) (idx_transit (n_days ws))
                       (row_values ws (n_days ws) r))
             [hdr + 1 ..< max_row ws + 1] [] = Inr sh"
    and out: "out = sort_key (\<lambda>s. (fst s, fst (snd s))) sh"
    unfolding simulate_def Let_def
    by (auto split: option.splits sum.splits simp del: upt_Suc)
  have "\<forall>s\<in>set sh. snd (snd s) = render_fgs (fgm (fst (snd s), fst s))"
    by (rule for_each_invariant [OF loop, where P = "\<lambda>sh. \<forall>s\<in>set sh.
          snd (snd s) = render_fgs (fgm (fst (snd s), fst s))"])
       (simp, rule cov_row_caused)
  moreover from assms(2) have "(d, c, f) \<in> set sh" unfolding out by simp
  ultimately show ?thesis by force
qed

lemma finite_causing_fgs: "finite (causing_fgs L bom plan c d)"
  by (simp add: causing_fgs_def)

text \<open>
  C4 (as amended). The finished goods of every shortage the simulator returns for a
  component and a date are the codes of the finished goods that have a BOM entry for that
  component and a planned quantity on that date, zero included: the text is the
  placeholder when there is none, and the sorted codes joined by commas otherwise.

  As stated, with a planned quantity that is not zero, the claim fails: a finished good
  planned with quantity 0 is listed among the causes.
\<close>

theorem shortage_causes:
  assumes "simulate L need (fg_map L (merged bom (dropna plan))) ds ws = Inr out"
    and "(d, c, f) \<in> set out"
  shows "f = (if causing_fgs L bom plan c d = {} then placeholder
              else join_with '', '' (sorted_list_of_set (causing_fgs L bom plan c d)))"
  using simulate_caused [OF assms]
  unfolding fg_map_merged render_fgs_finite [OF finite_causing_fgs] .

theorem shortage_causes_witness:
  "''FG1, FG2'' =
     (if causing_fgs example_lib bom_ex plan_ex ''C1'' 1 = {} then placeholder
      else join_with '', '' (sorted_list_of_set (causing_fgs example_lib bom_ex plan_ex ''C1'' 1)))"
proof -
  have sim: "simulate example_lib (need_lookup example_lib (explode bom_ex plan_ex))
       (fg_map example_lib (merged bom_ex (dropna plan_ex))) [1] cov3
     = Inr [(1, ''C1'', ''FG1, FG2'')]"
    by code_simp
  have mem: "(1, ''C1'', ''FG1, FG2'') \<in> set [(1::nat, ''C1'', ''FG1, FG2'')]"
    by simp
  from shortage_causes [OF sim mem] show ?thesis .
qed

theorem shortage_causes_zero_quantity_counterexample:
  "simulate example_lib (need_lookup example_lib (explode bom_ex plan_ex))
       (fg_map example_lib (merged bom_ex (dropna plan_ex))) [1] cov3
     = Inr [(1, ''C1'', ''FG1, FG2'')]
   \<and> render_fgs (causing_fgs_nonzero example_lib bom_ex plan_ex ''C1'' 1) = ''FG1''"
  by code_simp

end
